theory Spec2Isabelle
  imports Main
begin

section \<open>Constants of the\_snake.py\<close>

type_synonym POINTER = "int \<times> int"
type_synonym COLOR = "int \<times> int \<times> int"

definition SCREEN_WIDTH :: int where "SCREEN_WIDTH = 640"
definition SCREEN_HEIGHT :: int where "SCREEN_HEIGHT = 480"
definition GRID_SIZE :: int where "GRID_SIZE = 20"
definition GRID_WIDTH :: int where "GRID_WIDTH = SCREEN_WIDTH div GRID_SIZE"
definition GRID_HEIGHT :: int where "GRID_HEIGHT = SCREEN_HEIGHT div GRID_SIZE"

definition UP :: POINTER where "UP = (0, -1)"
definition DOWN :: POINTER where "DOWN = (0, 1)"
definition LEFT :: POINTER where "LEFT = (-1, 0)"
definition RIGHT :: POINTER where "RIGHT = (1, 0)"

definition BOARD_BACKGROUND_COLOR :: COLOR where "BOARD_BACKGROUND_COLOR = (0, 0, 0)"
definition BORDER_COLOR :: COLOR where "BORDER_COLOR = (93, 216, 228)"
definition APPLE_COLOR :: COLOR where "APPLE_COLOR = (255, 0, 0)"
definition SNAKE_COLOR :: COLOR where "SNAKE_COLOR = (0, 255, 0)"
definition DEFAULT_COLOR :: COLOR where "DEFAULT_COLOR = (2, 2, 2)"

definition INITIAL_SPEED :: int where "INITIAL_SPEED = 10"
definition MIN_SPEED :: int where "MIN_SPEED = 5"
definition MAX_SPEED :: int where "MAX_SPEED = 20"

definition SCREEN_CENTER :: POINTER where
  "SCREEN_CENTER = (SCREEN_WIDTH div 2, SCREEN_HEIGHT div 2)"

section \<open>Exceptions, the random module, list objects\<close>

text \<open>
  The two exceptions the program can raise: \<open>positions[0]\<close> on an empty list, and the
  \<open>SystemExit\<close> of \<open>handle_keys\<close>.
\<close>

datatype error = IndexError | SystemExit

text \<open>
  \<open>random.randint\<close> and \<open>random.choice\<close> are library functions. Each call consumes
  one number \<open>n\<close> of the generator's output, which the caller supplies; the result is
  reduced into the range the library guarantees.
\<close>

definition randint :: "int \<Rightarrow> int \<Rightarrow> nat \<Rightarrow> int" where
  "randint a b n = a + int n mod (b - a + 1)"

definition choice :: "'a list \<Rightarrow> nat \<Rightarrow> 'a" where
  "choice xs n = xs ! (n mod length xs)"

text \<open>
  Python lists are objects: \<open>Apple.occupied_positions\<close> and \<open>Snake.positions\<close> may name
  the same one. The store maps a reference to the list it holds; \<open>next_ref\<close> is the
  first reference not yet handed out.
\<close>

type_synonym ref = nat

record heap =
  list_at :: "ref \<Rightarrow> POINTER list"
  next_ref :: ref

definition alloc :: "POINTER list \<Rightarrow> heap \<Rightarrow> ref \<times> heap" where
  "alloc xs h = (next_ref h, h\<lparr>list_at := (list_at h)(next_ref h := xs), next_ref := Suc (next_ref h)\<rparr>)"

definition empty_heap :: heap where
  "empty_heap = \<lparr>list_at = (\<lambda>_. []), next_ref = 0\<rparr>"

section \<open>The classes\<close>

record GameObject =
  position :: POINTER
  body_color :: COLOR

record Apple = GameObject +
  occupied_positions :: ref

record Snake = GameObject +
  length_snake :: int
  positions :: ref
  direction :: POINTER
  next_direction :: "POINTER option"
  last_snake :: "POINTER option"

subsection \<open>Apple\<close>

text \<open>
  \<open>Apple.randomize_position\<close>: the \<open>while True\<close> loop draws two numbers per round and
  stops at the first cell that is not in the list \<open>occupied_positions\<close> refers to. The
  generator's output is a finite list here; \<open>None\<close> means the loop was still running
  when the list ended.
\<close>

fun randomize_position :: "heap \<Rightarrow> Apple \<Rightarrow> nat list \<Rightarrow> (Apple \<times> nat list) option" where
  "randomize_position h a (n1 # n2 # ns) =
     (let new_position =
            (randint 0 (GRID_WIDTH - 1) n1 * GRID_SIZE,
             randint 0 (GRID_HEIGHT - 1) n2 * GRID_SIZE)
      in if new_position \<notin> set (list_at h (occupied_positions a))
         then Some (a\<lparr>position := new_position\<rparr>, ns)
         else randomize_position h a ns)"
| "randomize_position h a ns = None"

text \<open>
  \<open>Apple.__init__\<close>: the position is the screen centre first (\<open>GameObject.__init__\<close>);
  without an argument a new empty list is created.
\<close>

definition Apple_init ::
    "ref option \<Rightarrow> heap \<Rightarrow> nat list \<Rightarrow> (heap \<times> Apple \<times> nat list) option" where
  "Apple_init arg h ns =
     (let (r, h1) = (case arg of Some r \<Rightarrow> (r, h) | None \<Rightarrow> alloc [] h);
          a = \<lparr>position = SCREEN_CENTER, body_color = APPLE_COLOR, occupied_positions = r\<rparr>
      in case randomize_position h1 a ns of
           None \<Rightarrow> None
         | Some (a1, ns1) \<Rightarrow> Some (h1, a1, ns1))"

subsection \<open>Snake\<close>

definition Snake_init :: "nat \<Rightarrow> heap \<Rightarrow> heap \<times> Snake" where
  "Snake_init n h =
     (let (r, h1) = alloc [SCREEN_CENTER] h
      in (h1, \<lparr>position = SCREEN_CENTER, body_color = SNAKE_COLOR,
               length_snake = 1, positions = r,
               direction = choice [UP, DOWN, LEFT, RIGHT] n,
               next_direction = None, last_snake = None\<rparr>))"

definition get_head_position :: "heap \<Rightarrow> Snake \<Rightarrow> error + POINTER" where
  "get_head_position h s =
     (case list_at h (positions s) of [] \<Rightarrow> Inl IndexError | p # _ \<Rightarrow> Inr p)"

text \<open>The expression bound to \<open>new_head\<close> in \<open>Snake.move\<close>.\<close>

definition new_head :: "POINTER \<Rightarrow> POINTER \<Rightarrow> POINTER" where
  "new_head p d =
     (case p of (x, y) \<Rightarrow> case d of (dx, dy) \<Rightarrow>
        ((x + dx * GRID_SIZE + SCREEN_WIDTH) mod SCREEN_WIDTH,
         (y + dy * GRID_SIZE + SCREEN_HEIGHT) mod SCREEN_HEIGHT))"

text \<open>
  \<open>Snake.move\<close>: \<open>insert(0, new_head)\<close> and \<open>pop()\<close> change the list object in place.
  When nothing is popped, \<open>self.last\<close> is not assigned.
\<close>

definition move :: "heap \<Rightarrow> Snake \<Rightarrow> error + (heap \<times> Snake)" where
  "move h s =
     (let s1 = (case next_direction s of Some d \<Rightarrow> s\<lparr>direction := d\<rparr> | None \<Rightarrow> s)
      in case get_head_position h s1 of
           Inl e \<Rightarrow> Inl e
         | Inr p \<Rightarrow>
             (let ps = new_head p (direction s1) # list_at h (positions s1)
              in if int (length ps) > length_snake s1
                 then Inr (h\<lparr>list_at := (list_at h)(positions s1 := butlast ps)\<rparr>,
                           s1\<lparr>last_snake := Some (last ps)\<rparr>)
                 else Inr (h\<lparr>list_at := (list_at h)(positions s1 := ps)\<rparr>, s1)))"

definition update_direction :: "Snake \<Rightarrow> Snake" where
  "update_direction s =
     (case next_direction s of
        Some d \<Rightarrow> s\<lparr>direction := d, next_direction := None\<rparr>
      | None \<Rightarrow> s)"

text \<open>
  \<open>Snake.reset\<close>: \<open>self.positions = [SCREEN_CENTER]\<close> binds the attribute to a new list
  object; the old one is left as it was. \<open>self.last\<close> is not assigned.
\<close>

definition reset :: "nat \<Rightarrow> heap \<Rightarrow> Snake \<Rightarrow> heap \<times> Snake" where
  "reset n h s =
     (let (r, h1) = alloc [SCREEN_CENTER] h
      in (h1, s\<lparr>length_snake := 1, positions := r,
                direction := choice [UP, DOWN, LEFT, RIGHT] n,
                next_direction := None\<rparr>))"

text \<open>
  Drawing: a command is a cell, a colour and the border width handed to
  \<open>pg.draw.rect\<close> (0 fills the rectangle).
\<close>

type_synonym draw_cmd = "POINTER \<times> COLOR \<times> nat"

definition Snake_draw :: "heap \<Rightarrow> Snake \<Rightarrow> error + draw_cmd list" where
  "Snake_draw h s =
     (let ps = list_at h (positions s);
          segments = concat (map (\<lambda>p. [(p, body_color s, 0), (p, BORDER_COLOR, 1)]) ps)
      in case ps of
           [] \<Rightarrow> Inl IndexError
         | p0 # _ \<Rightarrow>
             Inr (segments @ [(p0, body_color s, 0), (p0, BORDER_COLOR, 1)] @
                  (case last_snake s of
                     Some l \<Rightarrow> [(l, BOARD_BACKGROUND_COLOR, 0)]
                   | None \<Rightarrow> [])))"

definition Apple_draw :: "Apple \<Rightarrow> draw_cmd list" where
  "Apple_draw a = [(position a, body_color a, 0), (position a, BORDER_COLOR, 1)]"

text \<open>\<open>move\<close> called \<open>n\<close> times in a row, and the heads it produces.\<close>

fun moves :: "nat \<Rightarrow> heap \<Rightarrow> Snake \<Rightarrow> error + (heap \<times> Snake)" where
  "moves 0 h s = Inr (h, s)"
| "moves (Suc n) h s =
     (case move h s of
        Inl e \<Rightarrow> Inl e
      | Inr (h1, s1) \<Rightarrow> moves n h1 s1)"

fun head_trace :: "nat \<Rightarrow> heap \<Rightarrow> Snake \<Rightarrow> POINTER list" where
  "head_trace 0 h s = []"
| "head_trace (Suc n) h s =
     (case move h s of
        Inl e \<Rightarrow> []
      | Inr (h1, s1) \<Rightarrow>
          (case get_head_position h1 s1 of
             Inl e \<Rightarrow> []
           | Inr p \<Rightarrow> p # head_trace n h1 s1))"

definition head_after :: "nat \<Rightarrow> heap \<Rightarrow> Snake \<Rightarrow> error + POINTER" where
  "head_after n h s =
     (case moves n h s of
        Inl e \<Rightarrow> Inl e
      | Inr (h1, s1) \<Rightarrow> get_head_position h1 s1)"

section \<open>Keyboard\<close>

datatype key =
  K_UP | K_DOWN | K_LEFT | K_RIGHT | K_ESCAPE | K_PLUS | K_EQUALS | K_MINUS | K_OTHER nat

datatype event = QUIT | KEYDOWN key | OTHER_EVENT nat

fun direction_keys :: "key \<Rightarrow> POINTER option" where
  "direction_keys K_UP = Some UP"
| "direction_keys K_DOWN = Some DOWN"
| "direction_keys K_LEFT = Some LEFT"
| "direction_keys K_RIGHT = Some RIGHT"
| "direction_keys k = None"

text \<open>One round of the \<open>for event in pg.event.get()\<close> loop, for a key press.\<close>

definition key_direction :: "key \<Rightarrow> Snake \<Rightarrow> Snake" where
  "key_direction k s =
     (case direction_keys k of
        Some new_direction \<Rightarrow>
          if (fst new_direction + fst (direction s), snd new_direction + snd (direction s))
               \<noteq> (0, 0)
          then s\<lparr>next_direction := Some new_direction\<rparr>
          else s
      | None \<Rightarrow> s)"

definition key_speed :: "key \<Rightarrow> int \<Rightarrow> int" where
  "key_speed k speed =
     (if k = K_PLUS \<or> k = K_EQUALS then min (speed + 1) MAX_SPEED
      else if k = K_MINUS then max (speed - 1) MIN_SPEED
      else speed)"

fun handle_keys :: "event list \<Rightarrow> Snake \<Rightarrow> int \<Rightarrow> error + (Snake \<times> int)" where
  "handle_keys [] s speed = Inr (s, speed)"
| "handle_keys (e # es) s speed =
     (if e = QUIT \<or> e = KEYDOWN K_ESCAPE then Inl SystemExit
      else case e of
             KEYDOWN k \<Rightarrow> handle_keys es (key_direction k s) (key_speed k speed)
           | _ \<Rightarrow> handle_keys es s speed)"

section \<open>The main loop\<close>

text \<open>
  The variables of \<open>main\<close>, the list objects and what is left of the generator's
  output.
\<close>

record game =
  heap :: heap
  snake :: Snake
  apple :: Apple
  speed :: int
  record_length :: int
  rng :: "nat list"

definition body :: "game \<Rightarrow> POINTER list" where
  "body g = list_at (heap g) (positions (snake g))"

text \<open>The lines of \<open>main\<close> before the loop.\<close>

definition main_init :: "nat list \<Rightarrow> game option" where
  "main_init ns =
     (case ns of
        [] \<Rightarrow> None
      | n # ns1 \<Rightarrow>
          (let (h1, s) = Snake_init n empty_heap
           in case Apple_init (Some (positions s)) h1 ns1 of
                None \<Rightarrow> None
              | Some (h2, a, ns2) \<Rightarrow>
                  Some \<lparr>heap = h2, snake = s, apple = a, speed = INITIAL_SPEED,
                        record_length = 1, rng = ns2\<rparr>))"

text \<open>\<open>handle_keys\<close>, \<open>update_direction\<close> and \<open>move\<close>, the first lines of the loop.\<close>

definition advance :: "event list \<Rightarrow> game \<Rightarrow> error + game" where
  "advance evs g =
     (case handle_keys evs (snake g) (speed g) of
        Inl e \<Rightarrow> Inl e
      | Inr (s1, speed1) \<Rightarrow>
          (case move (heap g) (update_direction s1) of
             Inl e \<Rightarrow> Inl e
           | Inr (h2, s2) \<Rightarrow> Inr (g\<lparr>heap := h2, snake := s2, speed := speed1\<rparr>)))"

text \<open>The first \<open>if\<close> of the loop: the head is on the apple.\<close>

definition check_apple :: "game \<Rightarrow> (error + game) option" where
  "check_apple g =
     (case get_head_position (heap g) (snake g) of
        Inl e \<Rightarrow> Some (Inl e)
      | Inr p \<Rightarrow>
          if p = position (apple g)
          then (let s1 = (snake g)\<lparr>length_snake := length_snake (snake g) + 1\<rparr>
                in case randomize_position (heap g) (apple g) (rng g) of
                     None \<Rightarrow> None
                   | Some (a1, ns1) \<Rightarrow>
                       Some (Inr (g\<lparr>snake := s1, apple := a1, rng := ns1,
                                    record_length :=
                                      (if length_snake s1 > record_length g
                                       then length_snake s1 else record_length g)\<rparr>)))
          else Some (Inr g))"

text \<open>The condition of the second \<open>if\<close>: the head is in \<open>positions[1:]\<close>.\<close>

definition head_in_rest :: "heap \<Rightarrow> Snake \<Rightarrow> error + bool" where
  "head_in_rest h s =
     (case get_head_position h s of
        Inl e \<Rightarrow> Inl e
      | Inr p \<Rightarrow> Inr (p \<in> set (drop 1 (list_at h (positions s)))))"

text \<open>The second \<open>if\<close> of the loop: the snake is reset and the apple placed again.\<close>

definition check_collision :: "game \<Rightarrow> (error + game) option" where
  "check_collision g =
     (case head_in_rest (heap g) (snake g) of
        Inl e \<Rightarrow> Some (Inl e)
      | Inr True \<Rightarrow>
          (case rng g of
             [] \<Rightarrow> None
           | n # ns \<Rightarrow>
               (let (h1, s1) = reset n (heap g) (snake g)
                in case randomize_position h1 (apple g) ns of
                     None \<Rightarrow> None
                   | Some (a1, ns1) \<Rightarrow>
                       Some (Inr (g\<lparr>heap := h1, snake := s1, apple := a1, rng := ns1\<rparr>))))
      | Inr False \<Rightarrow> Some (Inr g))"

text \<open>The drawing at the end of the loop; only \<open>snake.draw\<close> can raise.\<close>

definition draw_all :: "game \<Rightarrow> error + draw_cmd list" where
  "draw_all g =
     (case Snake_draw (heap g) (snake g) of
        Inl e \<Rightarrow> Inl e
      | Inr cmds \<Rightarrow> Inr (cmds @ Apple_draw (apple g)))"

text \<open>One round of \<open>while True\<close>, given the events \<open>pg.event.get()\<close> returns.\<close>

definition tick :: "event list \<Rightarrow> game \<Rightarrow> (error + game) option" where
  "tick evs g =
     (case advance evs g of
        Inl e \<Rightarrow> Some (Inl e)
      | Inr g1 \<Rightarrow>
          (case check_apple g1 of
             None \<Rightarrow> None
           | Some (Inl e) \<Rightarrow> Some (Inl e)
           | Some (Inr g2) \<Rightarrow>
               (case check_collision g2 of
                  None \<Rightarrow> None
                | Some (Inl e) \<Rightarrow> Some (Inl e)
                | Some (Inr g3) \<Rightarrow>
                    (case draw_all g3 of
                       Inl e \<Rightarrow> Some (Inl e)
                     | Inr cmds \<Rightarrow> Some (Inr g3)))))"

text \<open>Several rounds, one list of events for each.\<close>

fun run :: "event list list \<Rightarrow> game \<Rightarrow> (error + game) option" where
  "run [] g = Some (Inr g)"
| "run (evs # rest) g =
     (case tick evs g of
        Some (Inr g1) \<Rightarrow> run rest g1
      | r \<Rightarrow> r)"

text \<open>The states the program can be in at the top of the loop.\<close>

inductive reachable :: "game \<Rightarrow> bool" where
  start: "main_init ns = Some g \<Longrightarrow> reachable g"
| round: "reachable g \<Longrightarrow> tick evs g = Some (Inr g1) \<Longrightarrow> reachable g1"

text \<open>
  Whether a round eats the apple (the first \<open>if\<close> is taken) and whether it resets the
  snake (the second \<open>if\<close> is taken).
\<close>

definition eats :: "event list \<Rightarrow> game \<Rightarrow> bool" where
  "eats evs g =
     (case advance evs g of
        Inl e \<Rightarrow> False
      | Inr g1 \<Rightarrow> get_head_position (heap g1) (snake g1) = Inr (position (apple g1)))"

definition resets :: "event list \<Rightarrow> game \<Rightarrow> bool" where
  "resets evs g =
     (case advance evs g of
        Inl e \<Rightarrow> False
      | Inr g1 \<Rightarrow>
          (case check_apple g1 of
             Some (Inr g2) \<Rightarrow> head_in_rest (heap g2) (snake g2) = Inr True
           | _ \<Rightarrow> False))"

text \<open>
  Every value \<open>snake.length\<close> takes: at the top of a round, after \<open>move\<close>, after the
  first \<open>if\<close> and after the second.
\<close>

definition lengths_in_tick :: "event list \<Rightarrow> game \<Rightarrow> int list" where
  "lengths_in_tick evs g =
     (case advance evs g of
        Inl e \<Rightarrow> []
      | Inr g1 \<Rightarrow>
          length_snake (snake g1) #
          (case check_apple g1 of
             Some (Inr g2) \<Rightarrow>
               length_snake (snake g2) #
               (case check_collision g2 of
                  Some (Inr g3) \<Rightarrow> [length_snake (snake g3)]
                | _ \<Rightarrow> [])
           | _ \<Rightarrow> []))"

fun lengths_reached :: "event list list \<Rightarrow> game \<Rightarrow> int list" where
  "lengths_reached [] g = [length_snake (snake g)]"
| "lengths_reached (evs # rest) g =
     length_snake (snake g) # lengths_in_tick evs g @
     (case tick evs g of
        Some (Inr g1) \<Rightarrow> lengths_reached rest g1
      | _ \<Rightarrow> [])"

text \<open>
  The snakes that the constructor and the methods produce; \<open>grown\<close> is the
  \<open>snake.length += 1\<close> of \<open>main\<close>.
\<close>

inductive built :: "heap \<Rightarrow> Snake \<Rightarrow> bool" where
  constructed: "Snake_init n h0 = (h, s) \<Longrightarrow> built h s"
| moved: "built h s \<Longrightarrow> move h s = Inr (h1, s1) \<Longrightarrow> built h1 s1"
| grown: "built h s \<Longrightarrow> built h (s\<lparr>length_snake := length_snake s + 1\<rparr>)"
| was_reset: "built h s \<Longrightarrow> reset n h s = (h1, s1) \<Longrightarrow> built h1 s1"
| keys_handled: "built h s \<Longrightarrow> handle_keys evs s v = Inr (s1, v1) \<Longrightarrow> built h s1"
| direction_updated: "built h s \<Longrightarrow> built h (update_direction s)"

section \<open>A game that ends in a reset\<close>

text \<open>
  The generator's output and the key presses of a game of seven rounds: the snake starts
  to the right, eats four apples in a row, then turns up, left and down into its own
  body. The states are the start, the state after the first round, the state before
  the last round, the state of the last round when \<open>move\<close> has returned, and the end.
\<close>

definition crash_rng :: "nat list" where
  "crash_rng = [3, 17, 12, 18, 12, 19, 12, 20, 12, 0, 0, 0, 16, 12]"

definition crash_events :: "event list list" where
  "crash_events = [[], [], [], [], [KEYDOWN K_UP], [KEYDOWN K_LEFT], [KEYDOWN K_DOWN]]"

definition crash_start :: game where
  "crash_start =
     \<lparr>heap = \<lparr>list_at = (\<lambda>_. [])(0 := [(320, 240)]), next_ref = 1\<rparr>,
      snake = \<lparr>position = (320, 240), body_color = (0, 255, 0), length_snake = 1,
               positions = 0, direction = (1, 0), next_direction = None,
               last_snake = None\<rparr>,
      apple = \<lparr>position = (340, 240), body_color = (255, 0, 0), occupied_positions = 0\<rparr>,
      speed = 10, record_length = 1,
      rng = [18, 12, 19, 12, 20, 12, 0, 0, 0, 16, 12]\<rparr>"

definition crash_fed :: game where
  "crash_fed =
     \<lparr>heap = \<lparr>list_at = (\<lambda>_. [])(0 := [(340, 240)]), next_ref = 1\<rparr>,
      snake = \<lparr>position = (320, 240), body_color = (0, 255, 0), length_snake = 2,
               positions = 0, direction = (1, 0), next_direction = None,
               last_snake = Some (320, 240)\<rparr>,
      apple = \<lparr>position = (360, 240), body_color = (255, 0, 0), occupied_positions = 0\<rparr>,
      speed = 10, record_length = 2,
      rng = [19, 12, 20, 12, 0, 0, 0, 16, 12]\<rparr>"

definition crash_coiled :: game where
  "crash_coiled =
     \<lparr>heap = \<lparr>list_at = (\<lambda>_. [])
                (0 := [(380, 220), (400, 220), (400, 240), (380, 240), (360, 240)]),
              next_ref = 1\<rparr>,
      snake = \<lparr>position = (320, 240), body_color = (0, 255, 0), length_snake = 5,
               positions = 0, direction = (- 1, 0), next_direction = None,
               last_snake = Some (340, 240)\<rparr>,
      apple = \<lparr>position = (0, 0), body_color = (255, 0, 0), occupied_positions = 0\<rparr>,
      speed = 10, record_length = 5,
      rng = [0, 16, 12]\<rparr>"

definition crash_bitten :: game where
  "crash_bitten =
     \<lparr>heap = \<lparr>list_at = (\<lambda>_. [])
                (0 := [(380, 240), (380, 220), (400, 220), (400, 240), (380, 240)]),
              next_ref = 1\<rparr>,
      snake = \<lparr>position = (320, 240), body_color = (0, 255, 0), length_snake = 5,
               positions = 0, direction = (0, 1), next_direction = None,
               last_snake = Some (360, 240)\<rparr>,
      apple = \<lparr>position = (0, 0), body_color = (255, 0, 0), occupied_positions = 0\<rparr>,
      speed = 10, record_length = 5,
      rng = [0, 16, 12]\<rparr>"

definition crash_end :: game where
  "crash_end =
     \<lparr>heap = \<lparr>list_at = (\<lambda>_. [])
                (0 := [(380, 240), (380, 220), (400, 220), (400, 240), (380, 240)],
                 1 := [(320, 240)]),
              next_ref = 2\<rparr>,
      snake = \<lparr>position = (320, 240), body_color = (0, 255, 0), length_snake = 1,
               positions = 1, direction = (0, - 1), next_direction = None,
               last_snake = Some (360, 240)\<rparr>,
      apple = \<lparr>position = (320, 240), body_color = (255, 0, 0), occupied_positions = 0\<rparr>,
      speed = 10, record_length = 5,
      rng = []\<rparr>"

section \<open>The example game, round by round\<close>

lemmas screen_defs =
  SCREEN_WIDTH_def SCREEN_HEIGHT_def GRID_SIZE_def GRID_WIDTH_def GRID_HEIGHT_def
  SCREEN_CENTER_def

lemmas direction_defs = UP_def DOWN_def LEFT_def RIGHT_def

lemmas color_defs =
  BOARD_BACKGROUND_COLOR_def BORDER_COLOR_def APPLE_COLOR_def SNAKE_COLOR_def
  DEFAULT_COLOR_def

lemmas tick_defs =
  tick_def advance_def check_apple_def check_collision_def head_in_rest_def draw_all_def
  Snake_draw_def Apple_draw_def move_def update_direction_def get_head_position_def
  new_head_def key_direction_def key_speed_def reset_def alloc_def randint_def choice_def
  screen_defs direction_defs color_defs INITIAL_SPEED_def MIN_SPEED_def MAX_SPEED_def Let_def

lemma crash_start_init: "main_init crash_rng = Some crash_start"
  by (simp add: main_init_def crash_rng_def crash_start_def Snake_init_def Apple_init_def
      empty_heap_def alloc_def randint_def choice_def screen_defs direction_defs color_defs
      INITIAL_SPEED_def Let_def)

lemma crash_fed_tick: "tick [] crash_start = Some (Inr crash_fed)"
  by (simp add: crash_start_def crash_fed_def tick_defs)

lemma crash_coiled_run:
  "run [[], [], [], [KEYDOWN K_UP], [KEYDOWN K_LEFT]] crash_fed = Some (Inr crash_coiled)"
  by (simp add: crash_fed_def crash_coiled_def tick_defs)

lemma crash_bitten_advance: "advance [KEYDOWN K_DOWN] crash_coiled = Inr crash_bitten"
  by (simp add: crash_coiled_def crash_bitten_def tick_defs)

lemma crash_end_tick: "tick [KEYDOWN K_DOWN] crash_coiled = Some (Inr crash_end)"
  by (simp add: crash_coiled_def crash_end_def tick_defs)

lemma run_append:
  "run (xs @ ys) g = (case run xs g of Some (Inr g1) \<Rightarrow> run ys g1 | r \<Rightarrow> r)"
  by (induction xs arbitrary: g) (simp_all split: option.splits sum.splits)

lemma run_single: "run [evs] g = tick evs g"
  by (simp split: option.splits sum.splits)

lemma run_step: "tick evs g = Some (Inr g1) \<Longrightarrow> run (evs # rest) g = run rest g1"
  by simp

lemma crash_end_run: "run crash_events crash_start = Some (Inr crash_end)"
proof -
  have 1: "run crash_events crash_start =
             run [[], [], [], [KEYDOWN K_UP], [KEYDOWN K_LEFT], [KEYDOWN K_DOWN]] crash_fed"
    unfolding crash_events_def using crash_fed_tick by (rule run_step)
  have 2: "run [[KEYDOWN K_DOWN]] crash_coiled = Some (Inr crash_end)"
    using crash_end_tick by (simp only: run_single)
  have "run ([[], [], [], [KEYDOWN K_UP], [KEYDOWN K_LEFT]] @ [[KEYDOWN K_DOWN]]) crash_fed =
          run [[KEYDOWN K_DOWN]] crash_coiled"
    by (simp only: run_append crash_coiled_run option.case sum.case)
  with 2 have "run [[], [], [], [KEYDOWN K_UP], [KEYDOWN K_LEFT], [KEYDOWN K_DOWN]] crash_fed =
          Some (Inr crash_end)"
    by (simp del: run.simps)
  with 1 show ?thesis by simp
qed

lemma reachable_run:
  "reachable g \<Longrightarrow> run evss g = Some (Inr g1) \<Longrightarrow> reachable g1"
proof (induction evss arbitrary: g)
  case Nil
  then show ?case by simp
next
  case (Cons evs rest)
  from Cons.prems(2) obtain g2 where t: "tick evs g = Some (Inr g2)"
    and r: "run rest g2 = Some (Inr g1)"
    by (auto split: option.splits sum.splits)
  from Cons.prems(1) t have "reachable g2" by (rule reachable.round)
  then show ?case using r by (rule Cons.IH)
qed

lemma crash_reachable:
  "reachable crash_start" "reachable crash_fed" "reachable crash_coiled" "reachable crash_end"
proof -
  show 0: "reachable crash_start" using crash_start_init by (rule reachable.start)
  show 1: "reachable crash_fed" using 0 crash_fed_tick by (rule reachable.round)
  show 2: "reachable crash_coiled" using 1 crash_coiled_run by (rule reachable_run)
  show "reachable crash_end" using 2 crash_end_tick by (rule reachable.round)
qed

section \<open>The wrapped new head\<close>

lemma new_head_bounds:
  "0 \<le> fst (new_head p d) \<and> fst (new_head p d) < SCREEN_WIDTH \<and>
   0 \<le> snd (new_head p d) \<and> snd (new_head p d) < SCREEN_HEIGHT"
  by (simp add: new_head_def screen_defs split: prod.splits)

lemma new_head_grid:
  assumes "GRID_SIZE dvd fst p" and "GRID_SIZE dvd snd p"
  shows "GRID_SIZE dvd fst (new_head p d) \<and> GRID_SIZE dvd snd (new_head p d)"
proof -
  obtain x y where p: "p = (x, y)" by (cases p)
  obtain dx dy where d: "d = (dx, dy)" by (cases d)
  from assms p have x: "20 dvd x" and y: "20 dvd y" by (simp_all add: GRID_SIZE_def)
  have w: "(20::int) dvd 640" and h: "(20::int) dvd 480" by simp_all
  from x have "20 dvd x + dx * 20 + 640" by simp
  then have 1: "20 dvd (x + dx * 20 + 640) mod 640" using w by (rule dvd_mod)
  from y have "20 dvd y + dy * 20 + 480" by simp
  then have 2: "20 dvd (y + dy * 20 + 480) mod 480" using h by (rule dvd_mod)
  have "new_head p d = ((x + dx * 20 + 640) mod 640, (y + dy * 20 + 480) mod 480)"
    unfolding new_head_def screen_defs p d by simp
  with 1 2 show ?thesis unfolding GRID_SIZE_def by simp
qed

text \<open>
  C7. From a cell on the grid and inside the board (both pixel coordinates multiples of
  \<open>GRID_SIZE\<close>, \<open>0 \<le> x < SCREEN_WIDTH\<close>, \<open>0 \<le> y < SCREEN_HEIGHT\<close>) and any of the four
  directions, \<open>new_head\<close> is inside the board again: each coordinate is at least 0 and
  below the extent, in pixels and in cells, and is a multiple of \<open>GRID_SIZE\<close>.
\<close>

theorem new_head_within_board:
  assumes "GRID_SIZE dvd x" and "GRID_SIZE dvd y"
    and "0 \<le> x" and "x < SCREEN_WIDTH" and "0 \<le> y" and "y < SCREEN_HEIGHT"
    and "d \<in> {UP, DOWN, LEFT, RIGHT}"
  shows "0 \<le> fst (new_head (x, y) d) \<and> fst (new_head (x, y) d) < SCREEN_WIDTH \<and>
         0 \<le> snd (new_head (x, y) d) \<and> snd (new_head (x, y) d) < SCREEN_HEIGHT \<and>
         GRID_SIZE dvd fst (new_head (x, y) d) \<and> GRID_SIZE dvd snd (new_head (x, y) d) \<and>
         0 \<le> fst (new_head (x, y) d) div GRID_SIZE \<and>
         fst (new_head (x, y) d) div GRID_SIZE < GRID_WIDTH \<and>
         0 \<le> snd (new_head (x, y) d) div GRID_SIZE \<and>
         snd (new_head (x, y) d) div GRID_SIZE < GRID_HEIGHT"
proof -
  have b: "0 \<le> fst (new_head (x, y) d) \<and> fst (new_head (x, y) d) < SCREEN_WIDTH \<and>
           0 \<le> snd (new_head (x, y) d) \<and> snd (new_head (x, y) d) < SCREEN_HEIGHT"
    by (rule new_head_bounds)
  have g: "GRID_SIZE dvd fst (new_head (x, y) d) \<and> GRID_SIZE dvd snd (new_head (x, y) d)"
    using assms(1,2) by (intro new_head_grid) simp_all
  have c: "0 \<le> fst (new_head (x, y) d) div GRID_SIZE \<and>
         fst (new_head (x, y) d) div GRID_SIZE < GRID_WIDTH \<and>
         0 \<le> snd (new_head (x, y) d) div GRID_SIZE \<and>
         snd (new_head (x, y) d) div GRID_SIZE < GRID_HEIGHT"
  proof -
    have lt: "\<And>a::int. a < 640 \<Longrightarrow> a div 20 < 32" by linarith
    have lt': "\<And>a::int. a < 480 \<Longrightarrow> a div 20 < 24" by linarith
    have ge: "\<And>a::int. 0 \<le> a \<Longrightarrow> 0 \<le> a div 20" by linarith
    from b lt lt' ge show ?thesis unfolding screen_defs by simp
  qed
  from b g c show ?thesis by blast
qed

theorem new_head_within_board_witness:
  "GRID_SIZE dvd 620 \<and> GRID_SIZE dvd 0 \<and> (0::int) \<le> 620 \<and> 620 < SCREEN_WIDTH \<and>
   (0::int) \<le> 0 \<and> 0 < SCREEN_HEIGHT \<and> UP \<in> {UP, DOWN, LEFT, RIGHT} \<and>
   new_head (620, 0) UP = (620, 460) \<and>
   0 \<le> fst (new_head (620, 0) UP) \<and> fst (new_head (620, 0) UP) < SCREEN_WIDTH \<and>
   0 \<le> snd (new_head (620, 0) UP) \<and> snd (new_head (620, 0) UP) < SCREEN_HEIGHT \<and>
   GRID_SIZE dvd fst (new_head (620, 0) UP) \<and> GRID_SIZE dvd snd (new_head (620, 0) UP) \<and>
   fst (new_head (620, 0) UP) div GRID_SIZE < GRID_WIDTH \<and>
   snd (new_head (620, 0) UP) div GRID_SIZE < GRID_HEIGHT"
  using new_head_within_board [of 620 0 UP]
  by (simp add: screen_defs direction_defs new_head_def)

section \<open>The methods of Snake\<close>

lemma reset_result:
  "reset n h s =
     (h\<lparr>list_at := (list_at h)(next_ref h := [SCREEN_CENTER]), next_ref := Suc (next_ref h)\<rparr>,
      s\<lparr>length_snake := 1, positions := next_ref h,
        direction := choice [UP, DOWN, LEFT, RIGHT] n, next_direction := None\<rparr>)"
  by (simp add: reset_def alloc_def)

lemma choice_direction: "choice [UP, DOWN, LEFT, RIGHT] n \<in> {UP, DOWN, LEFT, RIGHT}"
proof -
  have "n mod 4 < 4" by simp
  then consider "n mod 4 = 0" | "n mod 4 = 1" | "n mod 4 = 2" | "n mod 4 = 3" by linarith
  then show ?thesis by cases (simp_all add: choice_def)
qed

lemma reset_fields:
  assumes "reset n h s = (h1, s1)"
  shows "length_snake s1 = 1" and "list_at h1 (positions s1) = [SCREEN_CENTER]"
    and "direction s1 \<in> {UP, DOWN, LEFT, RIGHT}" and "next_direction s1 = None"
    and "last_snake s1 = last_snake s"
  using assms choice_direction [of n] by (auto simp: reset_result)

lemma move_result:
  assumes "list_at h (positions s) = p # ps"
  shows "move h s =
           (let d = (case next_direction s of Some d \<Rightarrow> d | None \<Rightarrow> direction s);
                ps1 = new_head p d # p # ps
            in if length_snake s < int (length ps1)
               then Inr (h\<lparr>list_at := (list_at h)(positions s := butlast ps1)\<rparr>,
                         s\<lparr>direction := d, last_snake := Some (last ps1)\<rparr>)
               else Inr (h\<lparr>list_at := (list_at h)(positions s := ps1)\<rparr>,
                         s\<lparr>direction := d\<rparr>))"
  using assms
  by (cases "next_direction s") (simp_all add: move_def get_head_position_def Let_def)

text \<open>
  C3, as amended. For a snake whose list of positions is \<open>p # ps\<close>, \<open>move\<close> returns; the
  direction is the pending one if there is one; the new head
  \<open>new_head p direction\<close> is put in front of the list; \<open>length\<close> is unchanged. If the
  list is now longer than \<open>length\<close>, its last element is removed and stored in \<open>last\<close>;
  otherwise the list keeps all its elements and \<open>last\<close> keeps the value it had.
\<close>

theorem move_prepends_head:
  assumes "list_at h (positions s) = p # ps"
  shows "\<exists>h1 s1. move h s = Inr (h1, s1) \<and>
           positions s1 = positions s \<and>
           length_snake s1 = length_snake s \<and>
           direction s1 = (case next_direction s of Some d \<Rightarrow> d | None \<Rightarrow> direction s) \<and>
           (if length_snake s < int (length (new_head p (direction s1) # p # ps))
            then list_at h1 (positions s1) = butlast (new_head p (direction s1) # p # ps) \<and>
                 last_snake s1 = Some (last (p # ps))
            else list_at h1 (positions s1) = new_head p (direction s1) # p # ps \<and>
                 last_snake s1 = last_snake s)"
  by (simp add: move_result [OF assms] Let_def)

theorem move_prepends_head_witness:
  "list_at (heap crash_fed) (positions (snake crash_fed)) = (340, 240) # [] \<and>
   (\<exists>h1 s1. move (heap crash_fed) (snake crash_fed) = Inr (h1, s1) \<and>
      length_snake s1 = 2 \<and>
      list_at h1 (positions s1) = [(360, 240), (340, 240)] \<and>
      last_snake s1 = Some (320, 240)) \<and>
   list_at (heap crash_coiled) (positions (snake crash_coiled)) =
     (380, 220) # [(400, 220), (400, 240), (380, 240), (360, 240)] \<and>
   (\<exists>h1 s1. move (heap crash_coiled) (snake crash_coiled) = Inr (h1, s1) \<and>
      length_snake s1 = 5 \<and>
      list_at h1 (positions s1) =
        [(360, 220), (380, 220), (400, 220), (400, 240), (380, 240)] \<and>
      last_snake s1 = Some (360, 240))"
  using move_prepends_head [of "heap crash_fed" "snake crash_fed" "(340, 240)" "[]"]
    move_prepends_head [of "heap crash_coiled" "snake crash_coiled" "(380, 220)"
      "[(400, 220), (400, 240), (380, 240), (360, 240)]"]
  by (auto simp: crash_fed_def crash_coiled_def new_head_def screen_defs)

text \<open>
  C3, as stated, fails. After its first apple the snake of the example game has
  \<open>length = 2\<close>, one position and \<open>last = (320, 240)\<close>; \<open>move\<close> pops nothing, and
  \<open>last\<close> is still \<open>(320, 240)\<close>, not absent.
\<close>

theorem move_keeps_last:
  "list_at (heap crash_fed) (positions (snake crash_fed)) = [(340, 240)] \<and>
   length_snake (snake crash_fed) = 2 \<and>
   move (heap crash_fed) (snake crash_fed) =
     Inr ((heap crash_fed)\<lparr>list_at := (list_at (heap crash_fed))(0 := [(360, 240), (340, 240)])\<rparr>,
          snake crash_fed) \<and>
   last_snake (snake crash_fed) = Some (320, 240)"
  by (simp add: crash_fed_def move_def get_head_position_def new_head_def screen_defs)


text \<open>
  C5. For a snake whose list of positions is not empty, the condition of the second
  \<open>if\<close> of the loop is true exactly if the head \<open>positions[0]\<close> occurs in
  \<open>positions[1:]\<close>; after \<open>reset\<close> it is false.
\<close>

theorem head_in_rest_iff:
  assumes "list_at h (positions s) \<noteq> []"
  shows "head_in_rest h s =
           Inr (hd (list_at h (positions s)) \<in> set (tl (list_at h (positions s)))) \<and>
         head_in_rest (fst (reset n h s)) (snd (reset n h s)) = Inr False"
  using assms
  by (cases "list_at h (positions s)")
     (simp_all add: head_in_rest_def get_head_position_def reset_result drop_Suc)

theorem head_in_rest_iff_witness:
  "list_at (fst (Snake_init 0 empty_heap)) (positions (snd (Snake_init 0 empty_heap))) \<noteq> [] \<and>
   head_in_rest (fst (Snake_init 0 empty_heap)) (snd (Snake_init 0 empty_heap)) = Inr False"
  using head_in_rest_iff [of "fst (Snake_init 0 empty_heap)" "snd (Snake_init 0 empty_heap)" 0]
  by (simp add: Snake_init_def alloc_def empty_heap_def)

section \<open>Requests to change direction\<close>

lemma key_direction_arrow:
  assumes "direction s \<in> {UP, DOWN, LEFT, RIGHT}" and "direction_keys k = Some r"
  shows "key_direction k s =
           (if r = (- fst (direction s), - snd (direction s)) then s
            else s\<lparr>next_direction := Some r\<rparr>)"
proof -
  from assms(2) have r: "r \<in> {UP, DOWN, LEFT, RIGHT}" by (cases k) auto
  obtain a b where rab: "r = (a, b)" by (cases r)
  obtain c d where dcd: "direction s = (c, d)" by (cases "direction s")
  have "(a + c = 0 \<and> b + d = 0) = (a = - c \<and> b = - d)" by auto
  then show ?thesis using assms(2) by (simp add: key_direction_def rab dcd)
qed

lemma direction_key_no_exit: "direction_keys k = Some r \<Longrightarrow> k \<noteq> K_ESCAPE"
  by (cases k) simp_all

lemma key_direction_direction: "direction (key_direction k s) = direction s"
  by (simp add: key_direction_def split: option.splits)

text \<open>
  C6. Let the snake's direction be one of the four, and let \<open>k\<close> and \<open>k2\<close> be arrow keys
  for the directions \<open>r\<close> and \<open>r2\<close>. \<open>handle_keys\<close> on the one press \<open>k\<close> stores \<open>r\<close> in
  \<open>next_direction\<close> unless \<open>r\<close> is the opposite of the direction, and then changes
  nothing. On the presses \<open>k\<close>, \<open>k2\<close> both are compared with the same, unchanged
  direction, and an accepted \<open>r2\<close> replaces what \<open>k\<close> stored. The speed is untouched.
\<close>

theorem handle_keys_direction_request:
  assumes "direction s \<in> {UP, DOWN, LEFT, RIGHT}"
    and "direction_keys k = Some r" and "direction_keys k2 = Some r2"
  shows "handle_keys [KEYDOWN k] s v =
           Inr (if r = (- fst (direction s), - snd (direction s)) then s
                else s\<lparr>next_direction := Some r\<rparr>, v) \<and>
         handle_keys [KEYDOWN k, KEYDOWN k2] s v =
           Inr (if r2 = (- fst (direction s), - snd (direction s))
                then (if r = (- fst (direction s), - snd (direction s)) then s
                      else s\<lparr>next_direction := Some r\<rparr>)
                else s\<lparr>next_direction := Some r2\<rparr>, v)"
proof -
  let ?opp = "(- fst (direction s), - snd (direction s))"
  have ks1: "key_speed k v = v"
    using assms(2) by (cases k) (simp_all add: key_speed_def)
  have ks2: "key_speed k2 v = v"
    using assms(3) by (cases k2) (simp_all add: key_speed_def)
  have ne: "k \<noteq> K_ESCAPE" "k2 \<noteq> K_ESCAPE"
    using assms(2,3) by (auto dest: direction_key_no_exit)
  have h1: "handle_keys [KEYDOWN k] s v = Inr (key_direction k s, v)"
    using ne ks1 by simp
  have h2: "handle_keys [KEYDOWN k, KEYDOWN k2] s v =
              Inr (key_direction k2 (key_direction k s), v)"
    using ne ks1 ks2 by simp
  have 1: "key_direction k s = (if r = ?opp then s else s\<lparr>next_direction := Some r\<rparr>)"
    using assms(1,2) by (rule key_direction_arrow)
  have d1: "direction (key_direction k s) \<in> {UP, DOWN, LEFT, RIGHT}"
    using assms(1) by (simp only: key_direction_direction)
  have 2: "key_direction k2 (key_direction k s) =
           (if r2 = ?opp then key_direction k s
            else (key_direction k s)\<lparr>next_direction := Some r2\<rparr>)"
    using key_direction_arrow [OF d1 assms(3)] by (simp only: key_direction_direction)
  have 3: "key_direction k2 (key_direction k s) =
           (if r2 = ?opp then (if r = ?opp then s else s\<lparr>next_direction := Some r\<rparr>)
            else s\<lparr>next_direction := Some r2\<rparr>)"
  proof (cases "r = ?opp")
    case True
    with 1 have "key_direction k s = s" by simp
    with 2 True show ?thesis by simp
  next
    case False
    with 1 have "key_direction k s = s\<lparr>next_direction := Some r\<rparr>" by simp
    with 2 False show ?thesis by simp
  qed
  from h1 1 have a: "handle_keys [KEYDOWN k] s v =
           Inr (if r = ?opp then s else s\<lparr>next_direction := Some r\<rparr>, v)"
    by (simp only:)
  from h2 3 have b: "handle_keys [KEYDOWN k, KEYDOWN k2] s v =
           Inr (if r2 = ?opp then (if r = ?opp then s else s\<lparr>next_direction := Some r\<rparr>)
                else s\<lparr>next_direction := Some r2\<rparr>, v)"
    by (simp only:)
  from a b show ?thesis by (rule conjI)
qed


theorem handle_keys_direction_request_witness:
  "direction (snake crash_start) = RIGHT \<and>
   direction (snake crash_start) \<in> {UP, DOWN, LEFT, RIGHT} \<and>
   direction_keys K_LEFT = Some LEFT \<and> direction_keys K_UP = Some UP \<and>
   handle_keys [KEYDOWN K_LEFT] (snake crash_start) 10 = Inr (snake crash_start, 10) \<and>
   handle_keys [KEYDOWN K_LEFT, KEYDOWN K_UP] (snake crash_start) 10 =
     Inr ((snake crash_start)\<lparr>next_direction := Some UP\<rparr>, 10) \<and>
   handle_keys [KEYDOWN K_UP, KEYDOWN K_LEFT] (snake crash_start) 10 =
     Inr ((snake crash_start)\<lparr>next_direction := Some UP\<rparr>, 10)"
  using handle_keys_direction_request [of "snake crash_start" K_LEFT LEFT K_UP UP 10]
    handle_keys_direction_request [of "snake crash_start" K_UP UP K_LEFT LEFT 10]
  by (simp add: crash_start_def direction_defs key_direction_def key_speed_def)

section \<open>Thirty-one moves to the right\<close>

lemma step_mod: "((x + 20) mod 640 + 20 * int n) mod 640 = (x + 20 * int (Suc n)) mod (640::int)"
proof -
  have "((x + 20) mod 640 + 20 * int n) mod 640 = ((x + 20) + 20 * int n) mod 640"
    by (rule mod_add_left_eq)
  also have "(x + 20) + 20 * int n = x + 20 * int (Suc n)" by simp
  finally show ?thesis .
qed

lemma move_single_right:
  assumes "list_at h (positions s) = [(x, y)]" and "length_snake s = 1"
    and "next_direction s = None" and "direction s = RIGHT"
    and "0 \<le> y" and "y < SCREEN_HEIGHT"
  shows "move h s =
           Inr (h\<lparr>list_at := (list_at h)(positions s := [((x + 20) mod 640, y)])\<rparr>,
                s\<lparr>last_snake := Some (x, y)\<rparr>)"
  using assms
  by (simp add: move_result [OF assms(1)] new_head_def screen_defs RIGHT_def Let_def)

lemma moves_single_right:
  assumes "list_at h (positions s) = [(x, y)]" and "length_snake s = 1"
    and "next_direction s = None" and "direction s = RIGHT"
    and "0 \<le> y" and "y < SCREEN_HEIGHT" and "0 \<le> x" and "x < SCREEN_WIDTH"
  shows "\<exists>h1 s1. moves n h s = Inr (h1, s1) \<and>
           list_at h1 (positions s1) = [((x + 20 * int n) mod 640, y)] \<and>
           length_snake s1 = 1 \<and> next_direction s1 = None \<and> direction s1 = RIGHT"
  using assms
proof (induction n arbitrary: h s x)
  case 0
  then show ?case by (simp add: screen_defs)
next
  case (Suc n)
  let ?h = "h\<lparr>list_at := (list_at h)(positions s := [((x + 20) mod 640, y)])\<rparr>"
  let ?s = "s\<lparr>last_snake := Some (x, y)\<rparr>"
  have m: "move h s = Inr (?h, ?s)"
    using Suc.prems(1-6) by (rule move_single_right)
  have "\<exists>h1 s1. moves n ?h ?s = Inr (h1, s1) \<and>
           list_at h1 (positions s1) = [(((x + 20) mod 640 + 20 * int n) mod 640, y)] \<and>
           length_snake s1 = 1 \<and> next_direction s1 = None \<and> direction s1 = RIGHT"
    using Suc.prems by (intro Suc.IH) (simp_all add: screen_defs)
  moreover have "((x + 20) mod 640 + 20 * int n) mod 640 = (x + 20 * int (Suc n)) mod 640"
    by (rule step_mod)
  ultimately show ?case using m by simp
qed

lemma head_trace_single_right:
  assumes "list_at h (positions s) = [(x, y)]" and "length_snake s = 1"
    and "next_direction s = None" and "direction s = RIGHT"
    and "0 \<le> y" and "y < SCREEN_HEIGHT"
  shows "head_trace n h s = map (\<lambda>k. ((x + 20 * int k) mod 640, y)) [1..<Suc n]"
  using assms
proof (induction n arbitrary: h s x)
  case 0
  then show ?case by simp
next
  case (Suc n)
  let ?h = "h\<lparr>list_at := (list_at h)(positions s := [((x + 20) mod 640, y)])\<rparr>"
  let ?s = "s\<lparr>last_snake := Some (x, y)\<rparr>"
  have m: "move h s = Inr (?h, ?s)"
    using Suc.prems(1-6) by (rule move_single_right)
  have "head_trace n ?h ?s =
          map (\<lambda>k. (((x + 20) mod 640 + 20 * int k) mod 640, y)) [1..<Suc n]"
    using Suc.prems by (intro Suc.IH) simp_all
  moreover have "\<And>k. ((x + 20) mod 640 + 20 * int k) mod 640 = (x + 20 * int (Suc k)) mod 640"
    by (rule step_mod)
  ultimately have t: "head_trace n ?h ?s =
          map (\<lambda>k. ((x + 20 * int (Suc k)) mod 640, y)) [1..<Suc n]"
    by simp
  have "[1..<Suc (Suc n)] = 1 # map Suc [1..<Suc n]"
    by (simp only: map_Suc_upt upt_conv_Cons [of 1 "Suc (Suc n)"])
  then have "map (\<lambda>k. ((x + 20 * int k) mod 640, y)) [1..<Suc (Suc n)] =
          ((x + 20) mod 640, y) # map (\<lambda>k. ((x + 20 * int (Suc k)) mod 640, y)) [1..<Suc n]"
    by (simp add: comp_def del: upt_Suc)
  with t m show ?case by (simp add: get_head_position_def del: upt_Suc)
qed


lemma start_right:
  "Snake_init 3 empty_heap =
     (\<lparr>list_at = (\<lambda>_. [])(0 := [(320, 240)]), next_ref = 1\<rparr>,
      \<lparr>position = (320, 240), body_color = (0, 255, 0), length_snake = 1, positions = 0,
       direction = RIGHT, next_direction = None, last_snake = None\<rparr>)"
  by (simp add: Snake_init_def alloc_def empty_heap_def choice_def screen_defs color_defs)

text \<open>
  C8. The board has 32 by 24 cells. The snake that the constructor builds with the
  direction RIGHT is the one cell (16, 12), pixel (320, 240). After 31 calls of \<open>move\<close>
  its head is the cell (15, 12), pixel (300, 240); on the way the heads climb to the
  last column 620, fall to column 0 once, and climb again.
\<close>

theorem thirty_one_moves_right:
  "list_at (fst (Snake_init 3 empty_heap)) (positions (snd (Snake_init 3 empty_heap))) =
     [(16 * GRID_SIZE, 12 * GRID_SIZE)] \<and>
   SCREEN_CENTER = (320, 240) \<and> GRID_WIDTH = 32 \<and> GRID_HEIGHT = 24 \<and>
   direction (snd (Snake_init 3 empty_heap)) = RIGHT \<and>
   head_after 31 (fst (Snake_init 3 empty_heap)) (snd (Snake_init 3 empty_heap)) =
     Inr (15 * GRID_SIZE, 12 * GRID_SIZE) \<and>
   head_after 31 (fst (Snake_init 3 empty_heap)) (snd (Snake_init 3 empty_heap)) =
     Inr (300, 240) \<and>
   head_trace 31 (fst (Snake_init 3 empty_heap)) (snd (Snake_init 3 empty_heap)) =
     [(340, 240), (360, 240), (380, 240), (400, 240), (420, 240), (440, 240), (460, 240),
      (480, 240), (500, 240), (520, 240), (540, 240), (560, 240), (580, 240), (600, 240),
      (620, 240), (0, 240), (20, 240), (40, 240), (60, 240), (80, 240), (100, 240),
      (120, 240), (140, 240), (160, 240), (180, 240), (200, 240), (220, 240), (240, 240),
      (260, 240), (280, 240), (300, 240)]"
proof -
  let ?h = "\<lparr>list_at = (\<lambda>_. [])(0 := [(320, 240)]), next_ref = 1\<rparr>"
  let ?s = "\<lparr>position = (320, 240), body_color = (0, 255, 0), length_snake = 1,
             positions = 0, direction = RIGHT, next_direction = None, last_snake = None\<rparr>"
  have i: "fst (Snake_init 3 empty_heap) = ?h" "snd (Snake_init 3 empty_heap) = ?s"
    by (simp_all only: start_right fst_conv snd_conv)
  have b: "list_at ?h (positions ?s) = [(320, 240)]" by simp
  have c1: "list_at (fst (Snake_init 3 empty_heap)) (positions (snd (Snake_init 3 empty_heap))) =
     [(16 * GRID_SIZE, 12 * GRID_SIZE)]"
    unfolding i by (simp add: GRID_SIZE_def)
  have c2: "SCREEN_CENTER = (320, 240)" "GRID_WIDTH = 32" "GRID_HEIGHT = 24"
    by (simp_all add: screen_defs)
  have c3: "direction (snd (Snake_init 3 empty_heap)) = RIGHT"
    unfolding i by simp
  have "\<exists>h1 s1. moves 31 ?h ?s = Inr (h1, s1) \<and>
           list_at h1 (positions s1) = [((320 + 20 * int 31) mod 640, 240)] \<and>
           length_snake s1 = 1 \<and> next_direction s1 = None \<and> direction s1 = RIGHT"
    using b by (rule moves_single_right) (simp_all add: screen_defs)
  then have "head_after 31 ?h ?s = Inr (300, 240)"
    by (auto simp: head_after_def get_head_position_def)
  then have a: "head_after 31 (fst (Snake_init 3 empty_heap)) (snd (Snake_init 3 empty_heap)) =
     Inr (300, 240)"
    by (simp only: i)
  then have a': "head_after 31 (fst (Snake_init 3 empty_heap)) (snd (Snake_init 3 empty_heap)) =
     Inr (15 * GRID_SIZE, 12 * GRID_SIZE)"
    by (simp add: GRID_SIZE_def)
  have tr: "head_trace 31 ?h ?s =
              map (\<lambda>k. ((320 + 20 * int k) mod 640, 240)) [1..<Suc 31]"
    using b by (rule head_trace_single_right) (simp_all add: screen_defs)
  have u: "[1..<Suc 31] = [1, 2, 3, 4, 5, 6, 7, 8, 9, 10, 11, 12, 13, 14, 15, 16, 17, 18,
      19, 20, 21, 22, 23, 24, 25, 26, 27, 28, 29, 30, 31]"
    by code_simp
  have ev: "map (\<lambda>k. ((320 + 20 * int k) mod 640, 240))
              [1, 2, 3, 4, 5, 6, 7, 8, 9, 10, 11, 12, 13, 14, 15, 16, 17, 18,
               19, 20, 21, 22, 23, 24, 25, 26, 27, 28, 29, 30, 31] =
     [(340, 240), (360, 240), (380, 240), (400, 240), (420, 240), (440, 240), (460, 240),
      (480, 240), (500, 240), (520, 240), (540, 240), (560, 240), (580, 240), (600, 240),
      (620, 240), (0, 240), (20, 240), (40, 240), (60, 240), (80, 240), (100, 240),
      (120, 240), (140, 240), (160, 240), (180, 240), (200, 240), (220, 240), (240, 240),
      (260, 240), (280, 240), (300, 240)]"
    by simp
  have "head_trace 31 ?h ?s =
     [(340, 240), (360, 240), (380, 240), (400, 240), (420, 240), (440, 240), (460, 240),
      (480, 240), (500, 240), (520, 240), (540, 240), (560, 240), (580, 240), (600, 240),
      (620, 240), (0, 240), (20, 240), (40, 240), (60, 240), (80, 240), (100, 240),
      (120, 240), (140, 240), (160, 240), (180, 240), (200, 240), (220, 240), (240, 240),
      (260, 240), (280, 240), (300, 240)]"
    by (simp only: tr u ev)
  then have t: "head_trace 31 (fst (Snake_init 3 empty_heap)) (snd (Snake_init 3 empty_heap)) =
     [(340, 240), (360, 240), (380, 240), (400, 240), (420, 240), (440, 240), (460, 240),
      (480, 240), (500, 240), (520, 240), (540, 240), (560, 240), (580, 240), (600, 240),
      (620, 240), (0, 240), (20, 240), (40, 240), (60, 240), (80, 240), (100, 240),
      (120, 240), (140, 240), (160, 240), (180, 240), (200, 240), (220, 240), (240, 240),
      (260, 240), (280, 240), (300, 240)]"
    by (simp only: i)
  from c1 c2 c3 a' a t show ?thesis by (intro conjI)
qed


section \<open>The apple and the reset\<close>

text \<open>
  C1, on the example game: its seven rounds run from the state \<open>main\<close> starts in, the
  seventh resets the snake, and at its end the apple lies on the cell (320, 240), which
  is the snake's only cell. \<open>reset\<close> made a new list for the snake, and the apple still
  looks at the old one.
\<close>

theorem apple_on_snake_after_reset:
  "main_init crash_rng = Some crash_start \<and>
   run crash_events crash_start = Some (Inr crash_end) \<and>
   reachable crash_end \<and>
   body crash_end = [(320, 240)] \<and>
   position (apple crash_end) = (320, 240) \<and>
   position (apple crash_end) \<in> set (body crash_end)"
  using crash_start_init crash_end_run crash_reachable(4)
  by (simp add: crash_end_def body_def)

text \<open>
  C4, on the example game: in the seventh round \<open>move\<close> leaves \<open>last = (360, 240)\<close>, the
  head is in the rest of the body, and \<open>reset\<close> returns a snake whose \<open>last\<close> is still
  \<open>(360, 240)\<close>; so it is at the end of the round.
\<close>

theorem reset_keeps_last:
  "advance [KEYDOWN K_DOWN] crash_coiled = Inr crash_bitten \<and>
   head_in_rest (heap crash_bitten) (snake crash_bitten) = Inr True \<and>
   last_snake (snake crash_bitten) = Some (360, 240) \<and>
   last_snake (snd (reset 0 (heap crash_bitten) (snake crash_bitten))) = Some (360, 240) \<and>
   last_snake (snake crash_end) = Some (360, 240)"
  using crash_bitten_advance
  by (simp add: crash_bitten_def crash_end_def head_in_rest_def get_head_position_def
      reset_def alloc_def)

section \<open>What each part of a round changes\<close>

lemma key_direction_fields:
  "length_snake (key_direction k s) = length_snake s"
  "positions (key_direction k s) = positions s"
  "last_snake (key_direction k s) = last_snake s"
  by (simp_all add: key_direction_def split: option.splits)

lemma handle_keys_fields:
  assumes "handle_keys evs s v = Inr (s1, v1)"
  shows "length_snake s1 = length_snake s \<and> positions s1 = positions s \<and>
         direction s1 = direction s \<and> last_snake s1 = last_snake s"
  using assms
proof (induction evs arbitrary: s v)
  case Nil
  then show ?case by simp
next
  case (Cons e es)
  show ?case
  proof (cases e)
    case QUIT
    with Cons.prems show ?thesis by simp
  next
    case (KEYDOWN k)
    with Cons.prems have "handle_keys es (key_direction k s) (key_speed k v) = Inr (s1, v1)"
      by (simp split: if_splits)
    from Cons.IH [OF this] show ?thesis
      by (simp add: key_direction_fields key_direction_direction)
  next
    case (OTHER_EVENT n)
    with Cons.prems have "handle_keys es s v = Inr (s1, v1)" by simp
    from Cons.IH [OF this] show ?thesis .
  qed
qed

lemma update_direction_fields:
  "length_snake (update_direction s) = length_snake s"
  "positions (update_direction s) = positions s"
  "last_snake (update_direction s) = last_snake s"
  "next_direction (update_direction s) = None"
  by (simp_all add: update_direction_def split: option.splits)

lemma move_fields:
  assumes "move h s = Inr (h1, s1)"
  shows "list_at h (positions s) \<noteq> []"
    and "length_snake s1 = length_snake s"
    and "positions s1 = positions s"
    and "list_at h1 (positions s1) \<noteq> []"
    and "int (length (list_at h1 (positions s1))) =
           (if length_snake s < int (length (list_at h (positions s))) + 1
            then int (length (list_at h (positions s)))
            else int (length (list_at h (positions s))) + 1)"
proof -
  show ne: "list_at h (positions s) \<noteq> []"
    using assms
    by (cases "next_direction s")
       (auto simp: move_def get_head_position_def split: list.splits)
  then obtain p ps where b: "list_at h (positions s) = p # ps"
    by (cases "list_at h (positions s)") auto
  from assms show "length_snake s1 = length_snake s"
    by (auto simp: move_result [OF b] Let_def split: if_splits)
  from assms show "positions s1 = positions s"
    by (auto simp: move_result [OF b] Let_def split: if_splits)
  from assms show "list_at h1 (positions s1) \<noteq> []"
    by (auto simp: move_result [OF b] Let_def split: if_splits)
  from assms show "int (length (list_at h1 (positions s1))) =
           (if length_snake s < int (length (list_at h (positions s))) + 1
            then int (length (list_at h (positions s)))
            else int (length (list_at h (positions s))) + 1)"
    by (auto simp: move_result [OF b] b Let_def split: if_splits)
qed

lemma move_returns:
  assumes "list_at h (positions s) \<noteq> []"
  shows "\<exists>h1 s1. move h s = Inr (h1, s1)"
proof -
  from assms obtain p ps where b: "list_at h (positions s) = p # ps"
    by (cases "list_at h (positions s)") auto
  show ?thesis by (simp add: move_result [OF b] Let_def)
qed

lemma advance_fields:
  assumes "advance evs g = Inr g1"
  shows "body g \<noteq> []" and "body g1 \<noteq> []"
    and "length_snake (snake g1) = length_snake (snake g)"
    and "record_length g1 = record_length g"
    and "int (length (body g1)) =
           (if length_snake (snake g) < int (length (body g)) + 1
            then int (length (body g)) else int (length (body g)) + 1)"
    and "built (heap g) (snake g) \<Longrightarrow> built (heap g1) (snake g1)"
proof -
  from assms obtain s1 v1 h2 s2 where
    k: "handle_keys evs (snake g) (speed g) = Inr (s1, v1)" and
    m: "move (heap g) (update_direction s1) = Inr (h2, s2)" and
    g1: "g1 = g\<lparr>heap := h2, snake := s2, speed := v1\<rparr>"
    by (auto simp: advance_def split: sum.splits)
  note kf = handle_keys_fields [OF k]
  note mf = move_fields [OF m]
  have p: "positions (update_direction s1) = positions (snake g)"
    using kf by (simp add: update_direction_fields)
  have l: "length_snake (update_direction s1) = length_snake (snake g)"
    using kf by (simp add: update_direction_fields)
  from mf(1) p show "body g \<noteq> []" by (simp add: body_def)
  from mf(4) show "body g1 \<noteq> []" by (simp add: body_def g1)
  from mf(2) l show "length_snake (snake g1) = length_snake (snake g)" by (simp add: g1)
  show "record_length g1 = record_length g" by (simp add: g1)
  from mf(5) p l show "int (length (body g1)) =
           (if length_snake (snake g) < int (length (body g)) + 1
            then int (length (body g)) else int (length (body g)) + 1)"
    by (simp add: body_def g1)
  assume "built (heap g) (snake g)"
  then have "built (heap g) s1" using k by (rule built.keys_handled)
  then have "built (heap g) (update_direction s1)" by (rule built.direction_updated)
  then have "built h2 s2" using m by (rule built.moved)
  then show "built (heap g1) (snake g1)" by (simp add: g1)
qed

lemma check_apple_fields:
  assumes "check_apple g = Some (Inr g2)"
  shows "body g2 = body g"
    and "get_head_position (heap g) (snake g) \<noteq> Inr (position (apple g)) \<Longrightarrow> g2 = g"
    and "get_head_position (heap g) (snake g) = Inr (position (apple g)) \<Longrightarrow>
           length_snake (snake g2) = length_snake (snake g) + 1 \<and>
           record_length g2 = max (record_length g) (length_snake (snake g) + 1)"
    and "built (heap g) (snake g) \<Longrightarrow> built (heap g2) (snake g2)"
proof -
  from assms show "body g2 = body g"
    by (auto simp: check_apple_def body_def Let_def split: sum.splits if_splits option.splits)
  from assms show "get_head_position (heap g) (snake g) \<noteq> Inr (position (apple g)) \<Longrightarrow> g2 = g"
    by (auto simp: check_apple_def Let_def split: sum.splits if_splits option.splits)
  from assms show "get_head_position (heap g) (snake g) = Inr (position (apple g)) \<Longrightarrow>
           length_snake (snake g2) = length_snake (snake g) + 1 \<and>
           record_length g2 = max (record_length g) (length_snake (snake g) + 1)"
    by (auto simp: check_apple_def Let_def split: sum.splits if_splits option.splits)
  assume b: "built (heap g) (snake g)"
  then have "built (heap g) ((snake g)\<lparr>length_snake := length_snake (snake g) + 1\<rparr>)"
    by (rule built.grown)
  with b assms show "built (heap g2) (snake g2)"
    by (auto simp: check_apple_def Let_def split: sum.splits if_splits option.splits)
qed

lemma check_collision_fields:
  assumes "check_collision g = Some (Inr g3)"
  shows "record_length g3 = record_length g"
    and "head_in_rest (heap g) (snake g) \<noteq> Inr True \<Longrightarrow> g3 = g"
    and "head_in_rest (heap g) (snake g) = Inr True \<Longrightarrow>
           length_snake (snake g3) = 1 \<and> body g3 = [SCREEN_CENTER]"
    and "built (heap g) (snake g) \<Longrightarrow> built (heap g3) (snake g3)"
proof -
  from assms show "record_length g3 = record_length g"
    by (auto simp: check_collision_def split: sum.splits bool.splits list.splits
        option.splits prod.splits)
  from assms show "head_in_rest (heap g) (snake g) \<noteq> Inr True \<Longrightarrow> g3 = g"
    by (auto simp: check_collision_def split: sum.splits bool.splits list.splits
        option.splits prod.splits)
  from assms show "head_in_rest (heap g) (snake g) = Inr True \<Longrightarrow>
           length_snake (snake g3) = 1 \<and> body g3 = [SCREEN_CENTER]"
    by (auto simp: check_collision_def body_def reset_result split: list.splits
        option.splits)
  assume b: "built (heap g) (snake g)"
  show "built (heap g3) (snake g3)"
  proof (cases "head_in_rest (heap g) (snake g) = Inr True")
    case True
    with assms obtain n ns a1 ns1 where
      r: "rng g = n # ns" and
      g3: "g3 = g\<lparr>heap := fst (reset n (heap g) (snake g)),
                    snake := snd (reset n (heap g) (snake g)), apple := a1, rng := ns1\<rparr>"
      by (auto simp: check_collision_def split: list.splits option.splits prod.splits)
    have "built (fst (reset n (heap g) (snake g))) (snd (reset n (heap g) (snake g)))"
      using b by (rule built.was_reset) simp
    then show ?thesis by (simp add: g3)
  next
    case False
    with assms have "g3 = g"
      by (auto simp: check_collision_def split: sum.splits bool.splits list.splits
        option.splits prod.splits)
    with b show ?thesis by simp
  qed
qed

lemma tick_phases:
  assumes "tick evs g = Some (Inr g3)"
  obtains g1 g2 where "advance evs g = Inr g1" and "check_apple g1 = Some (Inr g2)"
    and "check_collision g2 = Some (Inr g3)"
  using assms by (auto simp: tick_def split: sum.splits option.splits)


section \<open>The length of the body\<close>

lemma main_init_fields:
  assumes "main_init ns = Some g"
  shows "body g = [SCREEN_CENTER]" and "length_snake (snake g) = 1"
    and "record_length g = 1" and "built (heap g) (snake g)"
proof -
  from assms obtain n h1 s a ns2 where
    i: "Snake_init n empty_heap = (h1, s)" and
    g: "g = \<lparr>heap = h1, snake = s, apple = a, speed = INITIAL_SPEED,
              record_length = 1, rng = ns2\<rparr>"
    by (auto simp: main_init_def Apple_init_def split: list.splits prod.splits option.splits)
  from i show "body g = [SCREEN_CENTER]" by (auto simp: g body_def Snake_init_def alloc_def)
  from i show "length_snake (snake g) = 1" by (auto simp: g Snake_init_def alloc_def)
  show "record_length g = 1" by (simp add: g)
  have "built h1 s" using i by (rule built.constructed)
  then show "built (heap g) (snake g)" by (simp add: g)
qed

lemma tick_effect:
  assumes t: "tick evs g = Some (Inr g3)"
    and len: "int (length (body g)) = length_snake (snake g) \<or>
              int (length (body g)) + 1 = length_snake (snake g)"
  shows "int (length (body g3)) =
           (if eats evs g \<and> \<not> resets evs g then length_snake (snake g3) - 1
            else length_snake (snake g3))"
    and "record_length g3 =
           (if eats evs g then max (record_length g) (length_snake (snake g) + 1)
            else record_length g)"
    and "length_snake (snake g3) =
           (if resets evs g then 1
            else if eats evs g then length_snake (snake g) + 1
            else length_snake (snake g))"
    and "body g3 \<noteq> []"
    and "lengths_in_tick evs g =
           [length_snake (snake g),
            if eats evs g then length_snake (snake g) + 1 else length_snake (snake g),
            length_snake (snake g3)]"
    and "built (heap g) (snake g) \<Longrightarrow> built (heap g3) (snake g3)"
proof -
  from t obtain g1 g2 where a: "advance evs g = Inr g1"
    and c: "check_apple g1 = Some (Inr g2)" and k: "check_collision g2 = Some (Inr g3)"
    by (rule tick_phases)
  note af = advance_fields [OF a]
  note cf = check_apple_fields [OF c]
  note kf = check_collision_fields [OF k]
  have e: "eats evs g = (get_head_position (heap g1) (snake g1) = Inr (position (apple g1)))"
    by (simp add: eats_def a)
  have r: "resets evs g = (head_in_rest (heap g2) (snake g2) = Inr True)"
    by (simp add: resets_def a c)
  have l1: "int (length (body g1)) = length_snake (snake g1)"
    using af(3,5) len by auto
  have l2: "body g2 = body g1" by (rule cf(1))
  have n2: "length_snake (snake g2) =
              (if eats evs g then length_snake (snake g) + 1 else length_snake (snake g))"
    using cf(2,3) af(3) e by auto
  have r2: "record_length g2 =
              (if eats evs g then max (record_length g) (length_snake (snake g) + 1)
               else record_length g)"
    using cf(2,3) af(3,4) e by auto
  show "record_length g3 =
           (if eats evs g then max (record_length g) (length_snake (snake g) + 1)
            else record_length g)"
    using kf(1) r2 by simp
  show n3: "length_snake (snake g3) =
           (if resets evs g then 1
            else if eats evs g then length_snake (snake g) + 1
            else length_snake (snake g))"
    using kf(2,3) r n2 by auto
  show "int (length (body g3)) =
           (if eats evs g \<and> \<not> resets evs g then length_snake (snake g3) - 1
            else length_snake (snake g3))"
  proof (cases "resets evs g")
    case True
    with kf(3) r show ?thesis by simp
  next
    case False
    with kf(2) r have "g3 = g2" by simp
    with False l1 l2 n2 af(3) show ?thesis by auto
  qed
  show "body g3 \<noteq> []"
  proof (cases "resets evs g")
    case True
    with kf(3) r show ?thesis by simp
  next
    case False
    with kf(2) r have "g3 = g2" by simp
    with l2 af(2) show ?thesis by simp
  qed
  show "lengths_in_tick evs g =
           [length_snake (snake g),
            if eats evs g then length_snake (snake g) + 1 else length_snake (snake g),
            length_snake (snake g3)]"
    using af(3) n2 by (simp add: lengths_in_tick_def a c k)
  assume "built (heap g) (snake g)"
  then have "built (heap g1) (snake g1)" by (rule af(6))
  then have "built (heap g2) (snake g2)" by (rule cf(4))
  then show "built (heap g3) (snake g3)" by (rule kf(4))
qed

lemma reachable_invariant:
  assumes "reachable g"
  shows "body g \<noteq> [] \<and>
         (int (length (body g)) = length_snake (snake g) \<or>
          int (length (body g)) + 1 = length_snake (snake g)) \<and>
         1 \<le> length_snake (snake g) \<and>
         length_snake (snake g) \<le> record_length g \<and>
         built (heap g) (snake g)"
  using assms
proof (induction rule: reachable.induct)
  case (start ns g)
  then show ?case by (simp add: main_init_fields)
next
  case (round g evs g1)
  then have len: "int (length (body g)) = length_snake (snake g) \<or>
              int (length (body g)) + 1 = length_snake (snake g)" by simp
  note te = tick_effect [OF round.hyps(2) len]
  from round.IH have b: "built (heap g) (snake g)" by simp
  have 1: "body g1 \<noteq> []" by (rule te(4))
  have 2: "int (length (body g1)) = length_snake (snake g1) \<or>
          int (length (body g1)) + 1 = length_snake (snake g1)"
    using te(1) by (auto split: if_splits)
  have 3: "1 \<le> length_snake (snake g1)"
    using te(3) round.IH by (auto split: if_splits)
  have 4: "length_snake (snake g1) \<le> record_length g1"
    using te(2,3) round.IH by (auto split: if_splits)
  have 5: "built (heap g1) (snake g1)" using b by (rule te(6))
  from 1 2 3 4 5 show ?case by blast
qed

text \<open>
  C2, as amended. After a complete round from a state the loop can be in, the number of
  positions equals \<open>length\<close>, except after a round that ate the apple and did not reset
  the snake: then it is \<open>length - 1\<close>, because \<open>length\<close> was incremented after \<open>move\<close>
  and the list catches up at the next \<open>move\<close>.
\<close>

theorem body_length_after_tick:
  assumes "reachable g" and "tick evs g = Some (Inr g1)"
  shows "int (length (body g1)) =
           (if eats evs g \<and> \<not> resets evs g then length_snake (snake g1) - 1
            else length_snake (snake g1))"
proof -
  from assms(1) have "int (length (body g)) = length_snake (snake g) \<or>
          int (length (body g)) + 1 = length_snake (snake g)"
    by (simp add: reachable_invariant)
  with assms(2) show ?thesis by (rule tick_effect(1))
qed

lemma crash_eats:
  "eats [] crash_start" "\<not> resets [] crash_start"
  "\<not> eats [KEYDOWN K_DOWN] crash_coiled" "resets [KEYDOWN K_DOWN] crash_coiled"
  by (simp_all add: eats_def resets_def crash_start_def crash_coiled_def tick_defs)

theorem body_length_after_tick_witness:
  "reachable crash_start \<and> tick [] crash_start = Some (Inr crash_fed) \<and>
   eats [] crash_start \<and> \<not> resets [] crash_start \<and>
   int (length (body crash_fed)) = length_snake (snake crash_fed) - 1 \<and>
   reachable crash_coiled \<and> tick [KEYDOWN K_DOWN] crash_coiled = Some (Inr crash_end) \<and>
   \<not> eats [KEYDOWN K_DOWN] crash_coiled \<and> resets [KEYDOWN K_DOWN] crash_coiled \<and>
   int (length (body crash_end)) = length_snake (snake crash_end)"
  using body_length_after_tick [OF crash_reachable(1) crash_fed_tick]
    body_length_after_tick [OF crash_reachable(3) crash_end_tick]
    crash_reachable(1,3) crash_fed_tick crash_end_tick crash_eats
  by simp


text \<open>
  C2, as stated, fails. The first round of the example game eats the apple: at its end
  the snake has one position and \<open>length = 2\<close>.
\<close>

theorem body_shorter_after_eating:
  "main_init crash_rng = Some crash_start \<and>
   tick [] crash_start = Some (Inr crash_fed) \<and>
   int (length (body crash_fed)) = 1 \<and>
   length_snake (snake crash_fed) = 2"
  using crash_start_init crash_fed_tick
  by (simp add: crash_fed_def body_def)

section \<open>The body is never empty\<close>

lemma built_invariant:
  assumes "built h s"
  shows "list_at h (positions s) \<noteq> [] \<and> 1 \<le> length_snake s"
  using assms
proof (induction rule: built.induct)
  case (constructed n h0 h s)
  then show ?case by (auto simp: Snake_init_def alloc_def)
next
  case (moved h s h1 s1)
  from move_fields(2,4) [OF moved.hyps(2)] moved.IH show ?case by simp
next
  case (grown h s)
  then show ?case by simp
next
  case (was_reset h s n h1 s1)
  from reset_fields(1,2) [OF was_reset.hyps(2)] show ?case by simp
next
  case (keys_handled h s evs v s1 v1)
  from handle_keys_fields [OF keys_handled.hyps(2)] keys_handled.IH show ?case by simp
next
  case (direction_updated h s)
  then show ?case by (simp add: update_direction_fields)
qed

text \<open>
  C10. A snake made by the constructor and changed only by \<open>move\<close>, by
  \<open>snake.length += 1\<close>, by \<open>reset\<close>, by \<open>handle_keys\<close> and by \<open>update_direction\<close> has a
  list of positions that is not empty and \<open>length \<ge> 1\<close>; so \<open>get_head_position\<close> returns
  the first position, and \<open>move\<close> and \<open>draw\<close> return without an IndexError. By
  \<open>reachable_invariant\<close> every state of the main loop holds such a snake.
\<close>

theorem body_never_empty:
  assumes "built h s"
  shows "list_at h (positions s) \<noteq> [] \<and> 1 \<le> length_snake s \<and>
         get_head_position h s = Inr (hd (list_at h (positions s))) \<and>
         (\<exists>h1 s1. move h s = Inr (h1, s1)) \<and>
         (\<exists>cmds. Snake_draw h s = Inr cmds)"
proof -
  from assms have i: "list_at h (positions s) \<noteq> []" and l: "1 \<le> length_snake s"
    by (simp_all add: built_invariant)
  from i obtain p ps where b: "list_at h (positions s) = p # ps"
    by (cases "list_at h (positions s)") auto
  have g: "get_head_position h s = Inr (hd (list_at h (positions s)))"
    by (simp add: get_head_position_def b)
  have m: "\<exists>h1 s1. move h s = Inr (h1, s1)" using i by (rule move_returns)
  have d: "\<exists>cmds. Snake_draw h s = Inr cmds" by (simp add: Snake_draw_def b)
  from i l g m d show ?thesis by blast
qed

lemma crash_built: "built (heap crash_coiled) (snake crash_coiled)"
  using crash_reachable(3) by (simp add: reachable_invariant)

theorem body_never_empty_witness:
  "built (heap crash_coiled) (snake crash_coiled) \<and>
   list_at (heap crash_coiled) (positions (snake crash_coiled)) \<noteq> [] \<and>
   1 \<le> length_snake (snake crash_coiled) \<and>
   get_head_position (heap crash_coiled) (snake crash_coiled) = Inr (380, 220) \<and>
   (\<exists>h1 s1. move (heap crash_coiled) (snake crash_coiled) = Inr (h1, s1)) \<and>
   (\<exists>cmds. Snake_draw (heap crash_coiled) (snake crash_coiled) = Inr cmds)"
  using body_never_empty [OF crash_built] crash_built
  by (simp add: crash_coiled_def)

section \<open>The record\<close>

lemma lengths_reached_head:
  "\<exists>xs. lengths_reached evss g = length_snake (snake g) # xs"
  by (cases evss) simp_all

lemma Max_four_append:
  fixes a :: int
  assumes "ys \<noteq> []"
  shows "Max (set (a # b # c # d # ys)) = max (max a (max b (max c d))) (Max (set ys))"
  using assms by (simp add: max.assoc)

lemma record_is_max_from:
  assumes "reachable g" and "run evss g = Some (Inr g1)"
  shows "record_length g1 = max (record_length g) (Max (set (lengths_reached evss g)))"
  using assms
proof (induction evss arbitrary: g)
  case Nil
  from reachable_invariant [OF Nil.prems(1)] Nil.prems(2) show ?case by simp
next
  case (Cons evs rest)
  from Cons.prems(2) obtain g2 where t: "tick evs g = Some (Inr g2)"
    and r: "run rest g2 = Some (Inr g1)"
    by (auto split: option.splits sum.splits)
  from Cons.prems(1) t have r2: "reachable g2" by (rule reachable.round)
  note inv = reachable_invariant [OF Cons.prems(1)]
  from inv have len: "int (length (body g)) = length_snake (snake g) \<or>
          int (length (body g)) + 1 = length_snake (snake g)" by simp
  note te = tick_effect [OF t len]
  have ih: "record_length g1 = max (record_length g2) (Max (set (lengths_reached rest g2)))"
    using r2 r by (rule Cons.IH)
  obtain xs where ne: "lengths_reached rest g2 = length_snake (snake g2) # xs"
    using lengths_reached_head by blast
  have lr: "lengths_reached (evs # rest) g =
          length_snake (snake g) # length_snake (snake g) #
          (if eats evs g then length_snake (snake g) + 1 else length_snake (snake g)) #
          length_snake (snake g2) # lengths_reached rest g2"
    by (simp add: te(5) t)
  have mx: "Max (set (lengths_reached (evs # rest) g)) =
          max (max (length_snake (snake g)) (max (length_snake (snake g))
               (max (if eats evs g then length_snake (snake g) + 1 else length_snake (snake g))
                    (length_snake (snake g2)))))
              (Max (set (lengths_reached rest g2)))"
    unfolding lr by (rule Max_four_append) (simp add: ne)
  have step: "record_length g2 =
          max (record_length g)
            (max (length_snake (snake g)) (max (length_snake (snake g))
               (max (if eats evs g then length_snake (snake g) + 1 else length_snake (snake g))
                    (length_snake (snake g2)))))"
    using te(2,3) inv by (auto split: if_splits)
  show ?case unfolding mx ih step by (simp add: max.assoc)
qed

lemma record_monotone:
  assumes "reachable g" and "run evss g = Some (Inr g1)"
  shows "record_length g \<le> record_length g1"
  using record_is_max_from [OF assms] by simp

text \<open>
  C9. Let the loop run from the state \<open>main\<close> starts in to a state \<open>g\<close>. Then
  \<open>record_length\<close> is the greatest value \<open>snake.length\<close> has had so far; it is no
  smaller in any state reached later; one more round sets it to \<open>length + 1\<close> exactly if
  the round eats the apple and \<open>length + 1\<close> exceeds it, and leaves it alone otherwise;
  and the reset of the snake does not change it.
\<close>

theorem record_length_is_maximum:
  assumes "main_init ns = Some g0" and "run evss g0 = Some (Inr g)"
    and "tick evs g = Some (Inr g1)" and "run later g = Some (Inr g2)"
  shows "record_length g = Max (set (lengths_reached evss g0)) \<and>
         record_length g \<le> record_length g2 \<and>
         record_length g1 =
           (if eats evs g \<and> record_length g < length_snake (snake g) + 1
            then length_snake (snake g) + 1 else record_length g) \<and>
         (\<forall>g3. check_collision g = Some (Inr g3) \<longrightarrow> record_length g3 = record_length g)"
proof -
  from assms(1) have r0: "reachable g0" by (rule reachable.start)
  then have rg: "reachable g" using assms(2) by (rule reachable_run)
  obtain xs where h: "lengths_reached evss g0 = length_snake (snake g0) # xs"
    using lengths_reached_head by blast
  have "length_snake (snake g0) \<le> Max (set (lengths_reached evss g0))"
    by (rule Max_ge) (simp_all add: h)
  then have "1 \<le> Max (set (lengths_reached evss g0))"
    using main_init_fields(2) [OF assms(1)] by simp
  then have 1: "record_length g = Max (set (lengths_reached evss g0))"
    using record_is_max_from [OF r0 assms(2)] main_init_fields(3) [OF assms(1)] by simp
  have 2: "record_length g \<le> record_length g2"
    using rg assms(4) by (rule record_monotone)
  from reachable_invariant [OF rg] have len: "int (length (body g)) = length_snake (snake g) \<or>
          int (length (body g)) + 1 = length_snake (snake g)" by simp
  have 3: "record_length g1 =
           (if eats evs g \<and> record_length g < length_snake (snake g) + 1
            then length_snake (snake g) + 1 else record_length g)"
    using tick_effect(2) [OF assms(3) len] by auto
  have 4: "\<forall>g3. check_collision g = Some (Inr g3) \<longrightarrow> record_length g3 = record_length g"
    by (auto dest: check_collision_fields(1))
  from 1 2 3 4 show ?thesis by blast
qed

lemma crash_coiled_from_start:
  "run [[], [], [], [], [KEYDOWN K_UP], [KEYDOWN K_LEFT]] crash_start = Some (Inr crash_coiled)"
  using crash_coiled_run by (simp only: run_step [OF crash_fed_tick])

theorem record_length_is_maximum_witness:
  "main_init crash_rng = Some crash_start \<and>
   run [[], [], [], [], [KEYDOWN K_UP], [KEYDOWN K_LEFT]] crash_start = Some (Inr crash_coiled) \<and>
   tick [KEYDOWN K_DOWN] crash_coiled = Some (Inr crash_end) \<and>
   run [[KEYDOWN K_DOWN]] crash_coiled = Some (Inr crash_end) \<and>
   Max (set (lengths_reached [[], [], [], [], [KEYDOWN K_UP], [KEYDOWN K_LEFT]] crash_start)) = 5 \<and>
   record_length crash_coiled = 5 \<and> record_length crash_end = 5 \<and>
   length_snake (snake crash_end) = 1"
  using record_length_is_maximum [OF crash_start_init crash_coiled_from_start crash_end_tick,
      of "[[KEYDOWN K_DOWN]]" crash_end]
    crash_start_init crash_coiled_from_start crash_end_tick
  by (simp add: run_single crash_coiled_def crash_end_def del: run.simps)


end
